theory Spec2Isabelle
  imports Complex_Main "HOL-Library.Word"
begin

section \<open>SystemMonitor.cpp: the native sampling library\<close>

text \<open>
  The functions of \<^verbatim>\<open>src/NativeLibrary/SystemMonitor.cpp\<close> are embedded in their
  non-Windows configuration (the \<^verbatim>\<open>#else\<close> branches, which read \<^verbatim>\<open>/proc\<close> and call
  \<^verbatim>\<open>statvfs\<close>). Every read of the operating system is an argument of the model: the
  content of \<^verbatim>\<open>/proc/stat\<close>, the directory entries of \<^verbatim>\<open>/proc\<close>, the answer of
  \<^verbatim>\<open>statvfs\<close>, \<^verbatim>\<open>socket\<close> and \<^verbatim>\<open>connect\<close>. Function-local \<^verbatim>\<open>static\<close> variables and
  the memory behind output pointers are passed in and returned.
\<close>

subsection \<open>The type \<^verbatim>\<open>double\<close>\<close>

text \<open>
  \<^verbatim>\<open>GetCpuUsage\<close> returns a \<^verbatim>\<open>double\<close> computed by two conversions from
  \<^verbatim>\<open>unsigned long long\<close>, one multiplication and one division. All operands are
  non-negative, so the model of IEEE 754 binary64 below leaves the sign out: a value is
  not-a-number, plus infinity, or a finite non-negative rational that is the exact value
  of the floating-point number. Operations round to nearest, ties to even, with a
  53-bit significand (the arithmetic of \<^verbatim>\<open>double\<close> on x86-64 and AArch64), gradual
  underflow below \<^verbatim>\<open>2^-1022\<close> and overflow to infinity
  from \<^verbatim>\<open>2^1024\<close> on.
\<close>

datatype double = NaN | PInf | Fin rat

text \<open>The number of binary digits of a positive integer.\<close>

function bitlen :: "int \<Rightarrow> int" where
  "bitlen n = (if n \<le> 0 then 0 else 1 + bitlen (n div 2))"
  by pat_completeness auto
termination
  by (relation "measure nat") auto

declare bitlen.simps [simp del]

text \<open>The integer nearest to \<open>n / d\<close>; of two equally near ones the even one.\<close>

definition round_half_even :: "int \<Rightarrow> int \<Rightarrow> int" where
  "round_half_even n d =
     (let q = n div d; r = n mod d
      in if 2 * r < d then q
         else if d < 2 * r then q + 1
         else if even q then q else q + 1)"

text \<open>\<open>scaled_le e p q\<close> is \<open>2\<^sup>e \<le> p / q\<close>, computed on integers.\<close>

definition scaled_le :: "int \<Rightarrow> int \<Rightarrow> int \<Rightarrow> bool" where
  "scaled_le e p q = (if 0 \<le> e then q * 2 ^ nat e \<le> p else q \<le> p * 2 ^ nat (- e))"

text \<open>The exponent \<open>e\<close> of a positive fraction: \<open>2\<^sup>e \<le> p / q < 2 * 2\<^sup>e\<close>.\<close>

definition binary_exponent :: "int \<Rightarrow> int \<Rightarrow> int" where
  "binary_exponent p q =
     (let e0 = bitlen p - bitlen q
      in if scaled_le e0 p q then e0 else e0 - 1)"

text \<open>
  Rounding the positive fraction \<open>p / q\<close> to binary64. The unit in the last place is
  \<open>2\<^sup>s\<close> with \<open>s = e - 52\<close>, where the exponent \<open>e\<close> is not taken below \<open>-1022\<close>
  (subnormal numbers share the unit \<^verbatim>\<open>2^-1074\<close>). The significand is at most \<^verbatim>\<open>2^53\<close>, so
  below exponent 1023 the rounded value stays under \<^verbatim>\<open>2^1024\<close> and the overflow test is
  only made from there on.
\<close>

definition round_fraction :: "int \<Rightarrow> int \<Rightarrow> double" where
  "round_fraction p q =
     (let e = max (binary_exponent p q) (- 1022);
          s = e - 52;
          r = (if 0 \<le> s then of_int (round_half_even p (q * 2 ^ nat s)) * 2 ^ nat s
               else of_int (round_half_even (p * 2 ^ nat (- s)) q) / 2 ^ nat (- s))
      in if e < 1023 then Fin r else if 2 ^ 1024 \<le> r then PInf else Fin r)"

definition round_binary64 :: "rat \<Rightarrow> double" where
  "round_binary64 x =
     (if x = 0 then Fin 0
      else case quotient_of x of (p, q) \<Rightarrow> round_fraction p q)"

text \<open>The conversion \<^verbatim>\<open>(double) n\<close> of an \<^verbatim>\<open>unsigned long long\<close>.\<close>

definition double_of_ull :: "64 word \<Rightarrow> double" where
  "double_of_ull w = round_binary64 (of_int (uint w))"

text \<open>Multiplication and division of non-negative doubles.\<close>

fun dmul :: "double \<Rightarrow> double \<Rightarrow> double" where
  "dmul NaN _ = NaN"
| "dmul _ NaN = NaN"
| "dmul PInf PInf = PInf"
| "dmul PInf (Fin b) = (if b = 0 then NaN else PInf)"
| "dmul (Fin a) PInf = (if a = 0 then NaN else PInf)"
| "dmul (Fin a) (Fin b) = round_binary64 (a * b)"

fun ddiv :: "double \<Rightarrow> double \<Rightarrow> double" where
  "ddiv NaN _ = NaN"
| "ddiv _ NaN = NaN"
| "ddiv PInf PInf = NaN"
| "ddiv PInf (Fin b) = PInf"
| "ddiv (Fin a) PInf = Fin 0"
| "ddiv (Fin a) (Fin b) =
     (if b = 0 then (if a = 0 then NaN else PInf) else round_binary64 (a / b))"

text \<open>\<^verbatim>\<open>x < 0\<close> on doubles: false for not-a-number.\<close>

fun is_negative :: "double \<Rightarrow> bool" where
  "is_negative (Fin r) = (r < 0)"
| "is_negative _ = False"

subsection \<open>\<^verbatim>\<open>GetCpuUsage\<close>\<close>

text \<open>
  The four \<^verbatim>\<open>static unsigned long long\<close> variables of \<^verbatim>\<open>GetCpuUsage\<close> and the flag
  of \<^verbatim>\<open>InitializePerfCounters\<close>; all start at zero (\<^verbatim>\<open>false\<close>).
\<close>

record cpu_state =
  perfCountersInitialized :: bool
  lastTotalUser :: "64 word"
  lastTotalUserLow :: "64 word"
  lastTotalSys :: "64 word"
  lastTotalIdle :: "64 word"

definition initial_cpu_state :: cpu_state where
  "initial_cpu_state =
     \<lparr>perfCountersInitialized = False, lastTotalUser = 0, lastTotalUserLow = 0,
      lastTotalSys = 0, lastTotalIdle = 0\<rparr>"

text \<open>
  The four numbers that \<^verbatim>\<open>fscanf(file, "cpu %llu %llu %llu %llu", ...)\<close> reads from the
  first line of \<^verbatim>\<open>/proc/stat\<close>.
\<close>

record cpu_times =
  totalUser :: "64 word"
  totalUserLow :: "64 word"
  totalSys :: "64 word"
  totalIdle :: "64 word"

definition InitializePerfCounters :: "cpu_state \<Rightarrow> cpu_state" where
  "InitializePerfCounters st =
     (if \<not> perfCountersInitialized st then st\<lparr>perfCountersInitialized := True\<rparr> else st)"

definition store_sample :: "cpu_times \<Rightarrow> cpu_state \<Rightarrow> cpu_state" where
  "store_sample r st =
     st\<lparr>lastTotalUser := totalUser r, lastTotalUserLow := totalUserLow r,
        lastTotalSys := totalSys r, lastTotalIdle := totalIdle r\<rparr>"

text \<open>
  \<^verbatim>\<open>GetCpuUsage\<close>: the argument is \<open>None\<close> when \<^verbatim>\<open>fopen("/proc/stat")\<close> fails and the
  numbers read otherwise; the result is the returned value and the new state. The
  subtractions and additions are those of \<^verbatim>\<open>unsigned long long\<close> (modulo \<^verbatim>\<open>2^64\<close>);
  \<^verbatim>\<open>total * 100.0\<close> converts \<^verbatim>\<open>total\<close> to \<^verbatim>\<open>double\<close>, and so does the division with
  its integer denominator.
\<close>

definition GetCpuUsage :: "cpu_state \<Rightarrow> cpu_times option \<Rightarrow> double \<times> cpu_state" where
  "GetCpuUsage st0 rd =
     (let st = InitializePerfCounters st0
      in case rd of
           None \<Rightarrow> (Fin 0, st)
         | Some r \<Rightarrow>
             if lastTotalUser st = 0 then (Fin 0, store_sample r st)
             else
               let total = (totalUser r - lastTotalUser st)
                           + (totalUserLow r - lastTotalUserLow st)
                           + (totalSys r - lastTotalSys st);
                   percent = ddiv (dmul (double_of_ull total) (Fin 100))
                                  (double_of_ull (total + (totalIdle r - lastTotalIdle st)))
               in (percent, store_sample r st))"

text \<open>
  A returned percentage lies in the closed interval from 0 to 100; not-a-number and
  infinity do not.
\<close>

definition percent_in_range :: "double \<Rightarrow> bool" where
  "percent_in_range d = (case d of Fin r \<Rightarrow> 0 \<le> r \<and> r \<le> 100 | _ \<Rightarrow> False)"

text \<open>
  The ticks elapsed between two readings, summed over the four counters as integers
  (without wrap-around).
\<close>

definition elapsed_ticks :: "cpu_times \<Rightarrow> cpu_times \<Rightarrow> int" where
  "elapsed_ticks r1 r2 =
     (uint (totalUser r2) - uint (totalUser r1))
     + (uint (totalUserLow r2) - uint (totalUserLow r1))
     + (uint (totalSys r2) - uint (totalSys r1))
     + (uint (totalIdle r2) - uint (totalIdle r1))"

subsection \<open>The sampling algorithm as the specification words it\<close>

text \<open>
  Section 4.1 of the specification: negative deltas are clamped to 0, \<open>busy\<close> is the
  sum of the user, nice and system deltas, \<open>total\<close> adds the idle delta, and the
  percentage is \<open>100 * busy / total\<close> when \<open>total > 0\<close> and 0 otherwise. These two
  definitions follow the specification, not the source; they serve only to compare.
\<close>

definition spec_clamped_delta :: "64 word \<Rightarrow> 64 word \<Rightarrow> int" where
  "spec_clamped_delta cur prev = (if cur < prev then 0 else uint cur - uint prev)"

definition spec_percentBusy :: "cpu_times \<Rightarrow> cpu_times \<Rightarrow> rat" where
  "spec_percentBusy r1 r2 =
     (let busy = spec_clamped_delta (totalUser r2) (totalUser r1)
                 + spec_clamped_delta (totalUserLow r2) (totalUserLow r1)
                 + spec_clamped_delta (totalSys r2) (totalSys r1);
          total = busy + spec_clamped_delta (totalIdle r2) (totalIdle r1)
      in if 0 < total then 100 * of_int busy / of_int total else 0)"

subsection \<open>\<^verbatim>\<open>GetNetworkStats\<close>\<close>

text \<open>
  The C library functions that the loop calls on a line. \<^verbatim>\<open>isspace\<close> and \<^verbatim>\<open>isdigit\<close>
  are those of the C locale.
\<close>

definition isspace :: "char \<Rightarrow> bool" where
  "isspace c = (c \<in> set [CHR '' '', CHR 0x09, CHR 0x0A, CHR 0x0B, CHR 0x0C, CHR 0x0D])"

definition isdigit :: "char \<Rightarrow> bool" where
  "isdigit c = (c \<in> set ''0123456789'')"

text \<open>The number that a string of decimal digits writes.\<close>

definition decimal :: "string \<Rightarrow> int" where
  "decimal s = foldl (\<lambda>a c. 10 * a + (int (of_char c) - 48)) 0 s"

text \<open>
  The conversions \<^verbatim>\<open>%lld\<close> and \<^verbatim>\<open>%d\<close> of \<^verbatim>\<open>sscanf\<close>: white space is skipped, then an
  optional sign and at least one digit are read. The result is the number and the rest
  of the input, or \<open>None\<close> when no number is there.
\<close>

definition scan_int :: "string \<Rightarrow> (int \<times> string) option" where
  "scan_int s =
     (let t = dropWhile isspace s;
          neg = (t \<noteq> [] \<and> hd t = CHR ''-'');
          u = (if t \<noteq> [] \<and> (hd t = CHR ''-'' \<or> hd t = CHR ''+'') then tl t else t);
          ds = takeWhile isdigit u
      in if ds = [] then None
         else Some (if neg then - decimal ds else decimal ds, drop (length ds) u))"

text \<open>\<open>n\<close> conversions \<^verbatim>\<open>%*d\<close> in a row: the numbers are read and dropped.\<close>

fun skip_ints :: "nat \<Rightarrow> string \<Rightarrow> string option" where
  "skip_ints 0 s = Some s"
| "skip_ints (Suc n) s =
     (case scan_int s of None \<Rightarrow> None | Some (_, rest) \<Rightarrow> skip_ints n rest)"

text \<open>
  What \<^verbatim>\<open>sscanf\<close> returns and what the three variables hold afterwards. A variable that
  was not assigned is shown empty or 0; the caller reads the variables only when the
  result is 3.
\<close>

record net_line =
  sscanf_result :: int
  interface :: string
  rx_bytes :: "64 word"
  tx_bytes :: "64 word"

text \<open>
  \<^verbatim>\<open>sscanf(line, "%31[^:]: %lld %*d %*d %*d %*d %*d %*d %*d %lld", interface, &rx_bytes,
  &tx_bytes)\<close>. The conversion \<^verbatim>\<open>%31[^:]\<close> takes the longest non-empty prefix of at most 31
  characters that holds no colon; unlike the numeric conversions it does not skip white
  space. The colon of the format must come next. A number beyond the range of
  \<^verbatim>\<open>long long\<close> is kept modulo \<^verbatim>\<open>2^64\<close> here (C leaves it undefined).
\<close>

definition sscanf_dev :: "string \<Rightarrow> net_line" where
  "sscanf_dev line =
     (let name = takeWhile (\<lambda>c. c \<noteq> CHR '':'') (take 31 line);
          after = drop (length name) line
      in if name = [] then
           \<lparr>sscanf_result = (if line = [] then - 1 else 0), interface = [],
            rx_bytes = 0, tx_bytes = 0\<rparr>
         else if after = [] \<or> hd after \<noteq> CHR '':'' then
           \<lparr>sscanf_result = 1, interface = name, rx_bytes = 0, tx_bytes = 0\<rparr>
         else
           case scan_int (tl after) of
             None \<Rightarrow> \<lparr>sscanf_result = 1, interface = name, rx_bytes = 0, tx_bytes = 0\<rparr>
           | Some (rx, rest) \<Rightarrow>
               (case skip_ints 7 rest of
                  None \<Rightarrow>
                    \<lparr>sscanf_result = 2, interface = name, rx_bytes = word_of_int rx,
                     tx_bytes = 0\<rparr>
                | Some rest' \<Rightarrow>
                    (case scan_int rest' of
                       None \<Rightarrow>
                         \<lparr>sscanf_result = 2, interface = name, rx_bytes = word_of_int rx,
                          tx_bytes = 0\<rparr>
                     | Some (tx, _) \<Rightarrow>
                         \<lparr>sscanf_result = 3, interface = name, rx_bytes = word_of_int rx,
                          tx_bytes = word_of_int tx\<rparr>)))"

text \<open>The two \<^verbatim>\<open>long long\<close> cells behind the output pointers.\<close>

record net_out =
  bytesReceived :: "64 word"
  bytesSent :: "64 word"

text \<open>
  The \<^verbatim>\<open>while (fgets(line, sizeof(line), file))\<close> loop over the lines as \<^verbatim>\<open>fgets\<close>
  delivers them (at most 255 characters each, the newline included).
  \<^verbatim>\<open>strcmp(interface, "lo") != 0\<close> is inequality of the two strings; \<^verbatim>\<open>+=\<close> on
  \<^verbatim>\<open>long long\<close> is taken modulo \<^verbatim>\<open>2^64\<close>.
\<close>

fun net_loop :: "string list \<Rightarrow> net_out \<Rightarrow> net_out" where
  "net_loop [] out = out"
| "net_loop (line # rest) out =
     (let scanned = sscanf_dev line
      in if sscanf_result scanned = 3 then
           (if interface scanned \<noteq> ''lo'' then
              net_loop rest
                (out\<lparr>bytesReceived := bytesReceived out + rx_bytes scanned,
                     bytesSent := bytesSent out + tx_bytes scanned\<rparr>)
            else net_loop rest out)
         else net_loop rest out)"

text \<open>
  \<^verbatim>\<open>GetNetworkStats\<close>: the first argument is \<open>None\<close> when \<^verbatim>\<open>fopen("/proc/net/dev")\<close>
  fails and the lines of the file otherwise, the second the content of the output cells
  before the call. The function has no \<^verbatim>\<open>static\<close> variable. The two \<^verbatim>\<open>fgets\<close> calls
  before the loop skip the first two lines.
\<close>

definition GetNetworkStats :: "string list option \<Rightarrow> net_out \<Rightarrow> int \<times> net_out" where
  "GetNetworkStats dev out =
     (case dev of
        None \<Rightarrow> (0, out)
      | Some lines \<Rightarrow>
          (1, net_loop (drop 2 lines) (out\<lparr>bytesReceived := 0, bytesSent := 0\<rparr>)))"

subsection \<open>\<^verbatim>\<open>GetDiskUsage\<close>\<close>

text \<open>The fields of \<^verbatim>\<open>struct statvfs\<close> that are read (\<^verbatim>\<open>unsigned long\<close>).\<close>

record statvfs_buf =
  f_blocks :: "64 word"
  f_frsize :: "64 word"
  f_bavail :: "64 word"

record disk_out =
  totalSpace :: "64 word"
  freeSpace :: "64 word"

text \<open>
  \<^verbatim>\<open>GetDiskUsage\<close>: \<open>statvfs\<close> is the system call, giving for a path its return value
  and the buffer it filled.
\<close>

definition GetDiskUsage ::
  "(string \<Rightarrow> int \<times> statvfs_buf) \<Rightarrow> string \<Rightarrow> disk_out \<Rightarrow> int \<times> disk_out" where
  "GetDiskUsage statvfs path out =
     (case statvfs path of
        (rc, stat) \<Rightarrow>
          if rc = 0 then
            (1, out\<lparr>totalSpace := f_blocks stat * f_frsize stat,
                    freeSpace := f_bavail stat * f_frsize stat\<rparr>)
          else (0, out))"

subsection \<open>\<^verbatim>\<open>GetTopProcesses\<close>\<close>

record dirent =
  d_type :: "8 word"
  d_name :: string

definition DT_DIR :: "8 word" where
  "DT_DIR = 4"

definition strspn :: "string \<Rightarrow> string \<Rightarrow> nat" where
  "strspn s accept = length (takeWhile (\<lambda>c. c \<in> set accept) s)"

text \<open>
  \<^verbatim>\<open>atoi\<close> is only called on names made of decimal digits; its value there is the
  number written (C leaves it undefined beyond \<^verbatim>\<open>INT_MAX\<close>).
\<close>

definition atoi :: "string \<Rightarrow> int" where
  "atoi s = decimal s"

text \<open>The three caller-provided arrays.\<close>

record proc_out =
  processIds :: "int list"
  processNames :: "string list"
  memoryUsages :: "64 word list"

text \<open>
  The \<^verbatim>\<open>while ((entry = readdir(proc)) != NULL && count < maxCount)\<close> loop over the
  entries of \<^verbatim>\<open>/proc\<close>, with the loop variable \<^verbatim>\<open>count\<close> and the arrays as state.
  \<^verbatim>\<open>count\<close> never exceeds \<^verbatim>\<open>maxCount\<close>, so the \<^verbatim>\<open>int\<close> arithmetic does not overflow. A
  write at index \<^verbatim>\<open>count\<close> is a list update; the caller provides arrays of at least
  \<^verbatim>\<open>maxCount\<close> elements.
\<close>

fun top_loop :: "dirent list \<Rightarrow> int \<Rightarrow> int \<times> proc_out \<Rightarrow> int \<times> proc_out" where
  "top_loop [] maxCount (count, out) = (count, out)"
| "top_loop (entry # rest) maxCount (count, out) =
     (if count < maxCount then
        (if d_type entry = DT_DIR
            \<and> strspn (d_name entry) ''0123456789'' = length (d_name entry)
         then top_loop rest maxCount
                (count + 1,
                 out\<lparr>processIds := (processIds out)[nat count := atoi (d_name entry)],
                     processNames := (processNames out)[nat count := d_name entry],
                     memoryUsages := (memoryUsages out)[nat count := 0]\<rparr>)
         else top_loop rest maxCount (count, out))
      else (count, out))"

text \<open>
  \<^verbatim>\<open>GetTopProcesses\<close>: the first argument is \<open>None\<close> when \<^verbatim>\<open>opendir("/proc")\<close> fails
  and the directory entries otherwise. The function returns nothing; the result is the
  content of the arrays afterwards.
\<close>

definition GetTopProcesses :: "dirent list option \<Rightarrow> int \<Rightarrow> proc_out \<Rightarrow> proc_out" where
  "GetTopProcesses proc maxCount out =
     (case proc of
        None \<Rightarrow> out
      | Some entries \<Rightarrow> snd (top_loop entries maxCount (0, out)))"

subsection \<open>\<^verbatim>\<open>CheckPortStatus\<close>\<close>

text \<open>
  \<^verbatim>\<open>CheckPortStatus\<close>: \<open>sock\<close> is what \<^verbatim>\<open>socket(AF_INET, SOCK_STREAM, 0)\<close> returns,
  \<open>connect\<close> what the \<^verbatim>\<open>connect\<close> call returns for a socket and the address built from
  host and port. The result of \<^verbatim>\<open>inet_pton\<close> is not looked at.
\<close>

definition CheckPortStatus ::
  "int \<Rightarrow> (int \<Rightarrow> string \<Rightarrow> int \<Rightarrow> int) \<Rightarrow> string \<Rightarrow> int \<Rightarrow> int" where
  "CheckPortStatus sock connect host port =
     (if sock < 0 then 0
      else let result = connect sock host port
           in if result = 0 then 1 else 0)"

section \<open>Rounding to binary64\<close>

subsection \<open>Bit length and exponent\<close>

lemma bitlen_bounds:
  "0 < n \<Longrightarrow> 0 < bitlen n \<and> 2 ^ nat (bitlen n - 1) \<le> n \<and> n < 2 ^ nat (bitlen n)"
proof (induction n rule: bitlen.induct)
  case (1 n)
  show ?case
  proof (cases "n div 2 = 0")
    case True
    with "1.prems" have "n = 1" by presburger
    then show ?thesis by (simp add: bitlen.simps [of 1] bitlen.simps [of 0])
  next
    case False
    with "1.prems" have pos: "0 < n div 2" by presburger
    from "1.IH" "1.prems" pos
    have ih: "0 < bitlen (n div 2)" "2 ^ nat (bitlen (n div 2) - 1) \<le> n div 2"
      "n div 2 < 2 ^ nat (bitlen (n div 2))"
      by simp_all
    have b: "bitlen n = 1 + bitlen (n div 2)"
      using "1.prems" by (simp add: bitlen.simps [of n])
    have e1: "nat (bitlen (n div 2)) = Suc (nat (bitlen (n div 2) - 1))"
      using ih(1) by arith
    have e2: "nat (1 + bitlen (n div 2)) = Suc (nat (bitlen (n div 2)))"
      using ih(1) by arith
    have "2 * 2 ^ nat (bitlen (n div 2) - 1) \<le> n"
      using ih(2) by presburger
    moreover have "n < 2 * 2 ^ nat (bitlen (n div 2))"
      using ih(3) by presburger
    ultimately show ?thesis using ih(1) unfolding b by (simp add: e1 e2)
  qed
qed

lemma scaled_le_iff:
  "0 < q \<Longrightarrow> scaled_le e p q \<longleftrightarrow> (of_int q :: rat) * 2 powi e \<le> of_int p"
proof (cases "0 \<le> e")
  case True
  have "(of_int q :: rat) * 2 ^ nat e \<le> of_int p \<longleftrightarrow> q * 2 ^ nat e \<le> p"
    by (metis of_int_le_iff of_int_mult of_int_numeral of_int_power)
  with True show ?thesis by (simp add: scaled_le_def power_int_def)
next
  case False
  assume q: "0 < q"
  have "(of_int q :: rat) \<le> of_int p * 2 ^ nat (- e) \<longleftrightarrow> q \<le> p * 2 ^ nat (- e)"
    by (metis of_int_le_iff of_int_mult of_int_numeral of_int_power)
  moreover have "(of_int q :: rat) * inverse 2 ^ nat (- e) \<le> of_int p
     \<longleftrightarrow> (of_int q :: rat) \<le> of_int p * 2 ^ nat (- e)"
    by (simp add: field_simps)
  ultimately show ?thesis using False by (simp add: scaled_le_def power_int_def)
qed

lemma binary_exponent_lower:
  assumes "0 < p" "0 < q"
  shows "scaled_le (binary_exponent p q) p q"
proof (cases "scaled_le (bitlen p - bitlen q) p q")
  case True
  then show ?thesis by (simp add: binary_exponent_def)
next
  case False
  have bp: "(2::rat) powi (bitlen p - 1) \<le> of_int p"
  proof -
    from bitlen_bounds [OF assms(1)] have "2 ^ nat (bitlen p - 1) \<le> p" "0 < bitlen p" by simp_all
    then have "(of_int (2 ^ nat (bitlen p - 1)) :: rat) \<le> of_int p" by (simp only: of_int_le_iff)
    with \<open>0 < bitlen p\<close> show ?thesis by (simp add: power_int_def)
  qed
  have bq: "(of_int q :: rat) \<le> 2 powi (bitlen q)"
  proof -
    from bitlen_bounds [OF assms(2)] have "q < 2 ^ nat (bitlen q)" "0 < bitlen q" by simp_all
    then have "(of_int q :: rat) \<le> of_int (2 ^ nat (bitlen q))" by (simp only: of_int_le_iff)
    with \<open>0 < bitlen q\<close> show ?thesis by (simp add: power_int_def)
  qed
  have "(of_int q :: rat) * 2 powi (bitlen p - bitlen q - 1)
        \<le> 2 powi (bitlen q) * 2 powi (bitlen p - bitlen q - 1)"
    using bq by (simp add: mult_right_mono)
  also have "\<dots> = 2 powi (bitlen p - 1)"
    by (simp flip: power_int_add)
  also note bp
  finally have "scaled_le (bitlen p - bitlen q - 1) p q"
    using assms(2) by (simp add: scaled_le_iff)
  with False show ?thesis by (simp add: binary_exponent_def)
qed

lemma binary_exponent_upper:
  assumes "0 < p" "0 < q"
  shows "\<not> scaled_le (binary_exponent p q + 1) p q"
proof (cases "scaled_le (bitlen p - bitlen q) p q")
  case False
  then show ?thesis by (simp add: binary_exponent_def)
next
  case True
  have bp: "(of_int p :: rat) < 2 powi (bitlen p)"
  proof -
    from bitlen_bounds [OF assms(1)] have "p < 2 ^ nat (bitlen p)" "0 < bitlen p" by simp_all
    then have "(of_int p :: rat) < of_int (2 ^ nat (bitlen p))" by (simp only: of_int_less_iff)
    with \<open>0 < bitlen p\<close> show ?thesis by (simp add: power_int_def)
  qed
  have bq: "(2::rat) powi (bitlen q - 1) \<le> of_int q"
  proof -
    from bitlen_bounds [OF assms(2)] have "2 ^ nat (bitlen q - 1) \<le> q" "0 < bitlen q" by simp_all
    then have "(of_int (2 ^ nat (bitlen q - 1)) :: rat) \<le> of_int q" by (simp only: of_int_le_iff)
    with \<open>0 < bitlen q\<close> show ?thesis by (simp add: power_int_def)
  qed
  note bp
  also have "(2::rat) powi (bitlen p) = 2 powi (bitlen q - 1) * 2 powi (bitlen p - bitlen q + 1)"
    by (simp flip: power_int_add)
  also have "\<dots> \<le> of_int q * 2 powi (bitlen p - bitlen q + 1)"
    using bq by (simp add: mult_right_mono)
  finally have "\<not> scaled_le (bitlen p - bitlen q + 1) p q"
    using assms(2) by (simp add: scaled_le_iff not_le)
  with True show ?thesis by (simp add: binary_exponent_def)
qed

subsection \<open>Rounding to the nearest integer\<close>

lemma round_half_even_ge:
  "n div d \<le> round_half_even n d"
  by (simp add: round_half_even_def Let_def)

lemma round_half_even_le:
  assumes "0 < d" "n \<le> k * d"
  shows "round_half_even n d \<le> k"
proof -
  have n: "n = n div d * d + n mod d" by simp
  have q: "n div d \<le> k"
  proof -
    have "n div d \<le> (k * d) div d" using assms(2) assms(1) by (rule zdiv_mono1)
    then show ?thesis using assms(1) by simp
  qed
  show ?thesis
  proof (cases "round_half_even n d = n div d")
    case True
    with q show ?thesis by simp
  next
    case False
    then have r: "round_half_even n d = n div d + 1" "d \<le> 2 * (n mod d)"
      by (auto simp add: round_half_even_def Let_def split: if_splits)
    with assms(1) have "0 < n mod d" by linarith
    then have "n div d * d < n" using n by linarith
    with assms(2) have "n div d * d < k * d" by linarith
    with assms(1) have "n div d < k" by (simp add: mult_less_cancel_right)
    with r show ?thesis by simp
  qed
qed

lemma round_half_even_one [simp]: "round_half_even n 1 = n"
  by (simp add: round_half_even_def)

lemma round_half_even_pos:
  assumes "0 < d" "d \<le> n"
  shows "0 < round_half_even n d"
proof -
  have "d div d \<le> n div d" using assms by (intro zdiv_mono1) simp_all
  with assms(1) have "1 \<le> n div d" by simp
  with round_half_even_ge [of n d] show ?thesis by linarith
qed

lemma round_half_even_nonneg:
  assumes "0 < d" "0 \<le> n"
  shows "0 \<le> round_half_even n d"
proof -
  have "0 \<le> n div d" using assms by (simp add: pos_imp_zdiv_nonneg_iff)
  with round_half_even_ge [of n d] show ?thesis by linarith
qed

lemma round_half_even_nearest:
  assumes "0 < d"
  shows "2 * \<bar>round_half_even n d * d - n\<bar> \<le> d"
proof -
  have n: "n = n div d * d + n mod d" by simp
  have m: "0 \<le> n mod d" "n mod d < d" using assms by simp_all
  have "round_half_even n d = n div d \<and> 2 * (n mod d) \<le> d
      \<or> round_half_even n d = n div d + 1 \<and> d \<le> 2 * (n mod d)"
    unfolding round_half_even_def Let_def
    by (cases "2 * (n mod d) < d"; cases "d < 2 * (n mod d)"; cases "even (n div d)")
      simp_all
  then consider "round_half_even n d = n div d" "2 * (n mod d) \<le> d"
    | "round_half_even n d = n div d + 1" "d \<le> 2 * (n mod d)"
    by blast
  then show ?thesis
  proof cases
    case 1
    have "round_half_even n d * d - n = - (n mod d)"
      unfolding 1(1) using n by linarith
    with 1(2) m show ?thesis by simp
  next
    case 2
    have "round_half_even n d * d - n = d - n mod d"
      unfolding 2(1) using n by (simp add: algebra_simps)
    with 2(2) m show ?thesis by simp
  qed
qed

lemma round_half_even_dvd:
  assumes "0 < d" "d dvd n"
  shows "round_half_even n d * d = n"
  using assms by (simp add: round_half_even_def Let_def)

text \<open>
  The three outcomes of \<open>round_fraction\<close>: overflow, a multiple of the unit \<open>2\<^sup>s\<close>
  for \<open>s \<ge> 0\<close>, or a multiple of the unit \<open>2\<^sup>s\<close> for \<open>s < 0\<close>.
\<close>

lemma round_fraction_cases:
  obtains "round_fraction p q = PInf" "1023 \<le> binary_exponent p q"
  | s where "s = max (binary_exponent p q) (- 1022) - 52" "0 \<le> s"
      "round_fraction p q = Fin (of_int (round_half_even p (q * 2 ^ nat s)) * 2 ^ nat s)"
  | s where "s = max (binary_exponent p q) (- 1022) - 52" "s < 0"
      "round_fraction p q = Fin (of_int (round_half_even (p * 2 ^ nat (- s)) q) / 2 ^ nat (- s))"
proof -
  define s where "s = max (binary_exponent p q) (- 1022) - 52"
  define r :: rat where
    "r = (if 0 \<le> s then of_int (round_half_even p (q * 2 ^ nat s)) * 2 ^ nat s
          else of_int (round_half_even (p * 2 ^ nat (- s)) q) / 2 ^ nat (- s))"
  have rf: "round_fraction p q =
      (if s + 52 < 1023 then Fin r else if 2 ^ 1024 \<le> r then PInf else Fin r)"
    unfolding round_fraction_def Let_def r_def s_def by simp
  show thesis
  proof (cases "round_fraction p q = PInf")
    case True
    with rf have "1023 \<le> binary_exponent p q"
      by (simp add: s_def split: if_splits)
    with True show thesis by (rule that(1))
  next
    case False
    with rf have fin: "round_fraction p q = Fin r" by (simp split: if_splits)
    show thesis
    proof (cases "0 \<le> s")
      case True
      with fin have "round_fraction p q
          = Fin (of_int (round_half_even p (q * 2 ^ nat s)) * 2 ^ nat s)"
        by (simp add: r_def)
      with s_def True show thesis by (rule that(2))
    next
      case False
      with fin have "round_fraction p q
          = Fin (of_int (round_half_even (p * 2 ^ nat (- s)) q) / 2 ^ nat (- s))"
        by (simp add: r_def)
      moreover from False have "s < 0" by simp
      ultimately show thesis using s_def by (intro that(3))
    qed
  qed
qed

lemma round_fraction_not_negative:
  assumes "0 \<le> p" "0 < q"
  shows "\<not> is_negative (round_fraction p q)"
proof (cases p q rule: round_fraction_cases)
  case 1
  then show ?thesis by simp
next
  case (2 s)
  have "0 \<le> round_half_even p (q * 2 ^ nat s)"
    using assms by (intro round_half_even_nonneg) simp_all
  with 2 show ?thesis by (simp add: not_less)
next
  case (3 s)
  have "0 \<le> round_half_even (p * 2 ^ nat (- s)) q"
    using assms by (intro round_half_even_nonneg) simp_all
  with 3 show ?thesis by (simp add: not_less)
qed

lemma round_fraction_nonzero:
  assumes "0 < q" "q \<le> p"
  shows "round_fraction p q \<noteq> Fin 0"
proof (cases p q rule: round_fraction_cases)
  case 1
  then show ?thesis by simp
next
  case (2 s)
  from assms have p: "0 < p" by simp
  from 2 have e: "s = binary_exponent p q - 52" by (simp add: max_def split: if_splits)
  from binary_exponent_lower [OF p assms(1)] e 2(2)
  have "q * 2 ^ nat (s + 52) \<le> p" by (simp add: scaled_le_def)
  moreover have "q * 2 ^ nat s \<le> q * 2 ^ nat (s + 52)"
    using assms(1) 2(2) by (simp add: power_increasing)
  ultimately have "q * 2 ^ nat s \<le> p" by linarith
  then have "0 < round_half_even p (q * 2 ^ nat s)"
    using assms(1) by (intro round_half_even_pos) simp_all
  with 2 show ?thesis by simp
next
  case (3 s)
  from assms have "p * 1 \<le> p * 2 ^ nat (- s)"
    by (intro mult_left_mono) simp_all
  with assms(2) have "q \<le> p * 2 ^ nat (- s)" by simp
  with assms(1) have "0 < round_half_even (p * 2 ^ nat (- s)) q"
    by (rule round_half_even_pos)
  with 3 show ?thesis by simp
qed

subsection \<open>Bounds and exactness\<close>

lemma round_fraction_le_100:
  assumes "0 < p" "0 < q" "p \<le> 100 * q"
  shows "\<exists>r. round_fraction p q = Fin r \<and> 0 \<le> r \<and> r \<le> 100"
proof -
  have e: "binary_exponent p q < 7"
  proof (rule ccontr)
    assume "\<not> binary_exponent p q < 7"
    then have 7: "7 \<le> binary_exponent p q" by simp
    with binary_exponent_lower [OF assms(1,2)]
    have le: "q * 2 ^ nat (binary_exponent p q) \<le> p" by (simp add: scaled_le_def)
    from 7 have "(2::int) ^ 7 \<le> 2 ^ nat (binary_exponent p q)"
      by (intro power_increasing) simp_all
    then have "(128::int) \<le> 2 ^ nat (binary_exponent p q)" by simp
    then have "q * 128 \<le> q * 2 ^ nat (binary_exponent p q)"
      using assms(2) by (intro mult_left_mono) simp_all
    with le assms(2,3) show False by linarith
  qed
  show ?thesis
  proof (cases p q rule: round_fraction_cases)
    case 1
    with e show ?thesis by simp
  next
    case (2 s)
    with e show ?thesis by simp
  next
    case (3 s)
    have "round_half_even (p * 2 ^ nat (- s)) q \<le> 100 * 2 ^ nat (- s)"
      using assms(2,3) by (intro round_half_even_le) simp_all
    then have "(of_int (round_half_even (p * 2 ^ nat (- s)) q) :: rat)
        \<le> of_int (100 * 2 ^ nat (- s))"
      by (simp only: of_int_le_iff)
    then have up: "(of_int (round_half_even (p * 2 ^ nat (- s)) q) :: rat) / 2 ^ nat (- s) \<le> 100"
      by (simp add: field_simps)
    have "0 \<le> round_half_even (p * 2 ^ nat (- s)) q"
      using assms(1,2) by (intro round_half_even_nonneg) simp_all
    then have "(0::rat) \<le> of_int (round_half_even (p * 2 ^ nat (- s)) q) / 2 ^ nat (- s)"
      by simp
    with up 3(3) show ?thesis by simp
  qed
qed

lemma round_fraction_exact:
  assumes "0 < n" "n < 2 ^ 53"
  shows "round_fraction n 1 = Fin (of_int n)"
proof -
  have e: "binary_exponent n 1 < 53"
  proof (rule ccontr)
    assume "\<not> binary_exponent n 1 < 53"
    then have 53: "53 \<le> binary_exponent n 1" by simp
    with binary_exponent_lower [OF assms(1), of 1]
    have le: "2 ^ nat (binary_exponent n 1) \<le> n" by (simp add: scaled_le_def)
    from 53 have "(2::int) ^ 53 \<le> 2 ^ nat (binary_exponent n 1)"
      by (intro power_increasing) simp_all
    with le assms(2) show False by simp
  qed
  show ?thesis
  proof (cases n "1::int" rule: round_fraction_cases)
    case 1
    with e show ?thesis by simp
  next
    case (2 s)
    with e have "s = 0" by simp
    with 2(3) show ?thesis by simp
  next
    case (3 s)
    then show ?thesis by simp
  qed
qed

lemma round_fraction_exact_4:
  assumes "0 < n" "n < 2 ^ 55" "4 dvd n"
  shows "round_fraction n 1 = Fin (of_int n)"
proof -
  have e: "binary_exponent n 1 < 55"
  proof (rule ccontr)
    assume "\<not> binary_exponent n 1 < 55"
    then have 55: "55 \<le> binary_exponent n 1" by simp
    with binary_exponent_lower [OF assms(1), of 1]
    have le: "2 ^ nat (binary_exponent n 1) \<le> n" by (simp add: scaled_le_def)
    from 55 have "(2::int) ^ 55 \<le> 2 ^ nat (binary_exponent n 1)"
      by (intro power_increasing) simp_all
    with le assms(2) show False by simp
  qed
  show ?thesis
  proof (cases n "1::int" rule: round_fraction_cases)
    case 1
    with e show ?thesis by simp
  next
    case (2 s)
    with e have "s = 0 \<or> s = 1 \<or> s = 2" by auto
    then have "(2::int) ^ nat s dvd 4" by auto
    then have "(2::int) ^ nat s dvd n" using assms(3) by (rule dvd_trans)
    then have "round_half_even n (2 ^ nat s) * 2 ^ nat s = n"
      by (intro round_half_even_dvd) simp_all
    then have "(of_int (round_half_even n (2 ^ nat s) * 2 ^ nat s) :: rat) = of_int n"
      by simp
    with 2(3) show ?thesis by simp
  next
    case (3 s)
    then show ?thesis by simp
  qed
qed

lemma round_binary64_of_int_4:
  assumes "0 \<le> n" "n < 2 ^ 55" "4 dvd n"
  shows "round_binary64 (of_int n) = Fin (of_int n)"
proof (cases "n = 0")
  case True
  then show ?thesis by (simp add: round_binary64_def)
next
  case False
  with assms have "round_fraction n 1 = Fin (of_int n)"
    by (intro round_fraction_exact_4) simp_all
  with False show ?thesis by (simp add: round_binary64_def)
qed

lemma round_binary64_of_int:
  assumes "0 \<le> n" "n < 2 ^ 53"
  shows "round_binary64 (of_int n) = Fin (of_int n)"
proof (cases "n = 0")
  case True
  then show ?thesis by (simp add: round_binary64_def)
next
  case False
  with assms have "round_fraction n 1 = Fin (of_int n)"
    by (intro round_fraction_exact) simp_all
  with False show ?thesis by (simp add: round_binary64_def)
qed

lemma quotient_of_pos:
  assumes "quotient_of x = (p, q)" "0 < x"
  shows "0 < p" "0 < q" "x = of_int p / of_int q"
proof -
  show q: "0 < q" using assms(1) by (rule quotient_of_denom_pos)
  show x: "x = of_int p / of_int q" using assms(1) by (rule quotient_of_div)
  from assms(2) x q show "0 < p" by (simp add: zero_less_divide_iff)
qed

lemma round_binary64_le_100:
  assumes "0 \<le> x" "x \<le> 100"
  shows "\<exists>r. round_binary64 x = Fin r \<and> 0 \<le> r \<and> r \<le> 100"
proof (cases "x = 0")
  case True
  then show ?thesis by (simp add: round_binary64_def)
next
  case False
  obtain p q where pq: "quotient_of x = (p, q)" by (cases "quotient_of x")
  from False assms(1) have "0 < x" by simp
  note f = quotient_of_pos [OF pq this]
  from assms(2) f(2,3) have "(of_int p :: rat) \<le> of_int (100 * q)"
    by (simp add: field_simps)
  then have "p \<le> 100 * q" by (simp only: of_int_le_iff)
  from round_fraction_le_100 [OF f(1,2) this] pq False
  show ?thesis by (simp add: round_binary64_def)
qed

lemma round_binary64_nonzero:
  assumes "1 \<le> x"
  shows "round_binary64 x \<noteq> Fin 0"
proof -
  obtain p q where pq: "quotient_of x = (p, q)" by (cases "quotient_of x")
  from assms have x: "0 < x" by simp
  note f = quotient_of_pos [OF pq this]
  from assms f(2,3) have "(of_int q :: rat) \<le> of_int p"
    by (simp add: field_simps)
  then have "q \<le> p" by (simp only: of_int_le_iff)
  from round_fraction_nonzero [OF f(2) this] pq x
  show ?thesis by (simp add: round_binary64_def)
qed

lemma round_binary64_not_negative:
  assumes "0 \<le> x"
  shows "\<not> is_negative (round_binary64 x)"
proof (cases "x = 0")
  case True
  then show ?thesis by (simp add: round_binary64_def)
next
  case False
  obtain p q where pq: "quotient_of x = (p, q)" by (cases "quotient_of x")
  from False assms have "0 < x" by simp
  note f = quotient_of_pos [OF pq this]
  from f(1) have "0 \<le> p" by simp
  from round_fraction_not_negative [OF this f(2)] pq False
  show ?thesis by (simp add: round_binary64_def)
qed

lemma round_fraction_not_NaN: "round_fraction p q \<noteq> NaN"
  by (cases p q rule: round_fraction_cases) simp_all

lemma round_binary64_not_NaN: "round_binary64 x \<noteq> NaN"
  by (simp add: round_binary64_def round_fraction_not_NaN split: prod.split)

lemma double_of_ull_0 [simp]: "double_of_ull 0 = Fin 0"
  by (simp add: double_of_ull_def round_binary64_def)

lemma double_of_ull_not_NaN: "double_of_ull w \<noteq> NaN"
  by (simp add: double_of_ull_def round_binary64_not_NaN)

lemma double_of_ull_nonzero:
  assumes "w \<noteq> 0"
  shows "double_of_ull w \<noteq> Fin 0"
proof -
  from assms have "uint w \<noteq> 0" by (simp add: uint_0_iff)
  then have "1 \<le> uint w" using uint_ge_0 [of w] by linarith
  then have "(of_int 1 :: rat) \<le> of_int (uint w)" by (simp only: of_int_le_iff)
  then have "(1::rat) \<le> of_int (uint w)" by (simp only: of_int_1)
  then show ?thesis unfolding double_of_ull_def by (rule round_binary64_nonzero)
qed

lemma double_of_ull_exact:
  assumes "uint w < 2 ^ 53"
  shows "double_of_ull w = Fin (of_int (uint w))"
  unfolding double_of_ull_def using uint_ge_0 assms by (rule round_binary64_of_int)

lemma double_of_ull_not_negative: "\<not> is_negative (double_of_ull w)"
  unfolding double_of_ull_def
  by (rule round_binary64_not_negative) (simp only: of_int_0_le_iff uint_ge_0)

lemma dmul_not_negative:
  "\<not> is_negative a \<Longrightarrow> \<not> is_negative b \<Longrightarrow> \<not> is_negative (dmul a b)"
  by (cases a; cases b) (simp_all add: round_binary64_not_negative not_less)

lemma ddiv_not_negative:
  "\<not> is_negative a \<Longrightarrow> \<not> is_negative b \<Longrightarrow> \<not> is_negative (ddiv a b)"
  by (cases a; cases b) (simp_all add: round_binary64_not_negative not_less)

lemma ddiv_zero:
  "d \<noteq> NaN \<Longrightarrow> d \<noteq> Fin 0 \<Longrightarrow> ddiv (Fin 0) d = Fin 0"
  by (cases d) (simp_all add: round_binary64_def)

text \<open>
  The model on inputs whose binary64 values are well known: one third, one tenth, the
  largest \<^verbatim>\<open>unsigned long long\<close> (rounded up to \<^verbatim>\<open>2^64\<close>), and the two integers next
  above \<^verbatim>\<open>2^53\<close> that lie half-way between doubles.
\<close>

lemma round_binary64_examples:
  "round_binary64 (1 / 3) = Fin (6004799503160661 / 18014398509481984)"
  "round_binary64 (1 / 10) = Fin (3602879701896397 / 36028797018963968)"
  "double_of_ull 18446744073709551615 = Fin 18446744073709551616"
  "double_of_ull 9007199254740993 = Fin 9007199254740992"
  "double_of_ull 9007199254740995 = Fin 9007199254740996"
  by code_simp+

section \<open>Properties of GetCpuUsage\<close>

lemma InitializePerfCounters_last [simp]:
  "lastTotalUser (InitializePerfCounters st) = lastTotalUser st"
  "lastTotalUserLow (InitializePerfCounters st) = lastTotalUserLow st"
  "lastTotalSys (InitializePerfCounters st) = lastTotalSys st"
  "lastTotalIdle (InitializePerfCounters st) = lastTotalIdle st"
  "perfCountersInitialized (InitializePerfCounters st) = True"
  by (simp_all add: InitializePerfCounters_def)

lemma store_sample_fields [simp]:
  "lastTotalUser (store_sample r st) = totalUser r"
  "lastTotalUserLow (store_sample r st) = totalUserLow r"
  "lastTotalSys (store_sample r st) = totalSys r"
  "lastTotalIdle (store_sample r st) = totalIdle r"
  "perfCountersInitialized (store_sample r st) = perfCountersInitialized st"
  by (simp_all add: store_sample_def)

text \<open>
  C5. The first call of \<^verbatim>\<open>GetCpuUsage\<close> in a process, made in the initial state of the
  static variables, returns exactly 0, whatever it reads; when the read succeeds, the
  four numbers read become the stored baseline.
\<close>

theorem GetCpuUsage_first_call:
  "fst (GetCpuUsage initial_cpu_state rd) = Fin 0
   \<and> GetCpuUsage initial_cpu_state (Some r) =
       (Fin 0, \<lparr>perfCountersInitialized = True, lastTotalUser = totalUser r,
                lastTotalUserLow = totalUserLow r, lastTotalSys = totalSys r,
                lastTotalIdle = totalIdle r\<rparr>)"
  by (cases rd)
     (simp_all add: GetCpuUsage_def initial_cpu_state_def InitializePerfCounters_def
        store_sample_def)

lemma GetCpuUsage_stores:
  "snd (GetCpuUsage st (Some r)) = store_sample r (InitializePerfCounters st)"
  by (simp add: GetCpuUsage_def Let_def)

lemma GetCpuUsage_second:
  "fst (GetCpuUsage (snd (GetCpuUsage st (Some r1))) (Some r2)) =
     (if totalUser r1 = 0 then Fin 0
      else ddiv (dmul (double_of_ull ((totalUser r2 - totalUser r1)
                         + (totalUserLow r2 - totalUserLow r1)
                         + (totalSys r2 - totalSys r1))) (Fin 100))
                (double_of_ull ((totalUser r2 - totalUser r1)
                         + (totalUserLow r2 - totalUserLow r1)
                         + (totalSys r2 - totalSys r1)
                         + (totalIdle r2 - totalIdle r1))))"
  by (simp add: GetCpuUsage_stores) (simp add: GetCpuUsage_def Let_def)

lemma uint_diff: "b \<le> a \<Longrightarrow> uint (a - b) = uint a - uint b"
  for a b :: "64 word"
  by (simp add: word_le_def uint_sub_lem [symmetric])

lemma uint_sum:
  "uint a + uint b < 2 ^ 64 \<Longrightarrow> uint (a + b) = uint a + uint b"
  for a b :: "64 word"
  using uint_add_lem [of a b] by simp

lemma percent_exact_range:
  assumes "0 \<le> T" "T \<le> D" "0 < D" "100 * D < 2 ^ 55"
  shows "percent_in_range
           (ddiv (dmul (round_binary64 (of_int T)) (Fin 100)) (round_binary64 (of_int D)))"
proof -
  from assms have T: "round_binary64 (of_int T) = Fin (of_int T)"
    by (intro round_binary64_of_int) simp_all
  from assms have D: "round_binary64 (of_int D) = Fin (of_int D)"
    by (intro round_binary64_of_int) simp_all
  from assms have "round_binary64 (of_int (T * 100)) = Fin (of_int (T * 100))"
    by (intro round_binary64_of_int_4) simp_all
  then have m: "dmul (Fin (of_int T)) (Fin 100) = Fin (of_int (T * 100))"
    by simp
  have q: "(0::rat) \<le> of_int (T * 100) / of_int D" "(of_int (T * 100) :: rat) / of_int D \<le> 100"
    using assms by (simp_all add: field_simps)
  from round_binary64_le_100 [OF q] assms(3) show ?thesis
    unfolding T D m by (auto simp add: percent_in_range_def)
qed

text \<open>
  C10. The only sign of "no sample stored yet" is \<^verbatim>\<open>lastTotalUser == 0\<close>. Whenever the
  stored user counter is 0, a call that reads \<^verbatim>\<open>/proc/stat\<close> returns 0 and stores what it
  read as the new baseline. In particular, after any call that read a user counter of 0,
  the next call returns 0 again and only re-stores: a reading with 0 user ticks cannot be
  told from the state before the first call.
\<close>

theorem GetCpuUsage_zero_user_sentinel:
  "(lastTotalUser st = 0 \<longrightarrow>
      GetCpuUsage st (Some r) =
        (Fin 0, \<lparr>perfCountersInitialized = True, lastTotalUser = totalUser r,
                 lastTotalUserLow = totalUserLow r, lastTotalSys = totalSys r,
                 lastTotalIdle = totalIdle r\<rparr>))
   \<and> (totalUser r1 = 0 \<longrightarrow>
      GetCpuUsage (snd (GetCpuUsage st' (Some r1))) (Some r2) =
        (Fin 0, \<lparr>perfCountersInitialized = True, lastTotalUser = totalUser r2,
                 lastTotalUserLow = totalUserLow r2, lastTotalSys = totalSys r2,
                 lastTotalIdle = totalIdle r2\<rparr>))"
  by (simp add: GetCpuUsage_def Let_def store_sample_def InitializePerfCounters_def)

theorem GetCpuUsage_zero_user_sentinel_witness:
  "lastTotalUser \<lparr>perfCountersInitialized = True, lastTotalUser = 0, lastTotalUserLow = 3,
      lastTotalSys = 4, lastTotalIdle = 5\<rparr> = 0
   \<and> GetCpuUsage \<lparr>perfCountersInitialized = True, lastTotalUser = 0, lastTotalUserLow = 3,
         lastTotalSys = 4, lastTotalIdle = 5\<rparr>
        (Some \<lparr>totalUser = 9, totalUserLow = 10, totalSys = 20, totalIdle = 30\<rparr>) =
       (Fin 0, \<lparr>perfCountersInitialized = True, lastTotalUser = 9, lastTotalUserLow = 10,
                lastTotalSys = 20, lastTotalIdle = 30\<rparr>)
   \<and> totalUser \<lparr>totalUser = 0, totalUserLow = 10, totalSys = 20, totalIdle = 30\<rparr> = 0
   \<and> GetCpuUsage
        (snd (GetCpuUsage \<lparr>perfCountersInitialized = True, lastTotalUser = 7,
                lastTotalUserLow = 3, lastTotalSys = 4, lastTotalIdle = 5\<rparr>
              (Some \<lparr>totalUser = 0, totalUserLow = 10, totalSys = 20, totalIdle = 30\<rparr>)))
        (Some \<lparr>totalUser = 8, totalUserLow = 11, totalSys = 22, totalIdle = 33\<rparr>) =
       (Fin 0, \<lparr>perfCountersInitialized = True, lastTotalUser = 8, lastTotalUserLow = 11,
                lastTotalSys = 22, lastTotalIdle = 33\<rparr>)"
  using GetCpuUsage_zero_user_sentinel
    [of "\<lparr>perfCountersInitialized = True, lastTotalUser = 0, lastTotalUserLow = 3,
          lastTotalSys = 4, lastTotalIdle = 5\<rparr>"
        "\<lparr>totalUser = 9, totalUserLow = 10, totalSys = 20, totalIdle = 30\<rparr>"
        "\<lparr>totalUser = 0, totalUserLow = 10, totalSys = 20, totalIdle = 30\<rparr>"
        "\<lparr>perfCountersInitialized = True, lastTotalUser = 7,
                lastTotalUserLow = 3, lastTotalSys = 4, lastTotalIdle = 5\<rparr>"
        "\<lparr>totalUser = 8, totalUserLow = 11, totalSys = 22, totalIdle = 33\<rparr>"]
  by simp

text \<open>
  C1, as the code has it. When the busy-tick total of two consecutive readings (the sum,
  modulo \<^verbatim>\<open>2^64\<close>, of the user, nice and system deltas) is zero and the idle counter has
  changed, \<^verbatim>\<open>GetCpuUsage\<close> returns 0. The source has no test of the denominator.
\<close>

theorem GetCpuUsage_zero_busy:
  assumes "(totalUser r2 - totalUser r1) + (totalUserLow r2 - totalUserLow r1)
           + (totalSys r2 - totalSys r1) = 0"
    and "totalIdle r2 \<noteq> totalIdle r1"
  shows "fst (GetCpuUsage (snd (GetCpuUsage st (Some r1))) (Some r2)) = Fin 0"
proof -
  from assms(2) have "totalIdle r2 - totalIdle r1 \<noteq> 0" by simp
  then have "ddiv (Fin 0) (double_of_ull (totalIdle r2 - totalIdle r1)) = Fin 0"
    by (intro ddiv_zero double_of_ull_not_NaN double_of_ull_nonzero)
  then show ?thesis
    by (simp add: GetCpuUsage_second assms(1) round_binary64_def)
qed

theorem GetCpuUsage_zero_busy_witness:
  "(5 - 5) + (0 - 0) + (0 - 0) = (0 :: 64 word) \<and> (9 :: 64 word) \<noteq> 7
   \<and> fst (GetCpuUsage
         (snd (GetCpuUsage initial_cpu_state
            (Some \<lparr>totalUser = 5, totalUserLow = 0, totalSys = 0, totalIdle = 7\<rparr>)))
         (Some \<lparr>totalUser = 5, totalUserLow = 0, totalSys = 0, totalIdle = 9\<rparr>)) = Fin 0"
  using GetCpuUsage_zero_busy
    [of "\<lparr>totalUser = 5, totalUserLow = 0, totalSys = 0, totalIdle = 9\<rparr>"
        "\<lparr>totalUser = 5, totalUserLow = 0, totalSys = 0, totalIdle = 7\<rparr>"
        initial_cpu_state]
  by simp

text \<open>
  C1 as stated fails when the idle counter has not changed either: reading the same four
  numbers twice makes the quotient \<^verbatim>\<open>0.0 / 0.0\<close>, and the call returns not-a-number.
\<close>

theorem GetCpuUsage_zero_total_counterexample:
  "(5 - 5) + (0 - 0) + (0 - 0) = (0 :: 64 word)
   \<and> fst (GetCpuUsage
         (snd (GetCpuUsage initial_cpu_state
            (Some \<lparr>totalUser = 5, totalUserLow = 0, totalSys = 0, totalIdle = 7\<rparr>)))
         (Some \<lparr>totalUser = 5, totalUserLow = 0, totalSys = 0, totalIdle = 7\<rparr>)) = NaN"
  by (simp add: GetCpuUsage_second round_binary64_def)

text \<open>
  C2, as the code has it. The deltas are differences of \<^verbatim>\<open>unsigned long long\<close> and are
  not clamped; whatever the stored baseline and the reading are, the value returned is
  never negative (it is a finite number from 0 upwards, infinity or not-a-number).
\<close>

theorem GetCpuUsage_not_negative:
  "\<not> is_negative (fst (GetCpuUsage st rd))"
proof (cases rd)
  case None
  then show ?thesis by (simp add: GetCpuUsage_def Let_def)
next
  case (Some r)
  have "\<not> is_negative (Fin 0)" "\<not> is_negative (Fin 100)" by simp_all
  then show ?thesis using Some
    by (simp add: GetCpuUsage_def Let_def ddiv_not_negative dmul_not_negative
        double_of_ull_not_negative del: is_negative.simps)
qed

theorem GetCpuUsage_not_negative_witness:
  "\<not> is_negative (fst (GetCpuUsage
         (snd (GetCpuUsage initial_cpu_state
            (Some \<lparr>totalUser = 6, totalUserLow = 0, totalSys = 0, totalIdle = 0\<rparr>)))
         (Some \<lparr>totalUser = 2, totalUserLow = 0, totalSys = 0, totalIdle = 8\<rparr>)))"
  by (rule GetCpuUsage_not_negative)

text \<open>
  C2 as stated fails: when the user counter falls from 6 to 2 while 8 idle ticks pass,
  clamping gives a busy delta of 0 and hence 0 percent; the source computes the busy
  delta \<^verbatim>\<open>2^64 - 4\<close>, the denominator 4, and returns \<^verbatim>\<open>25 * 2^64\<close>.
\<close>

theorem GetCpuUsage_restart_counterexample:
  "(2 :: 64 word) < 6
   \<and> spec_percentBusy \<lparr>totalUser = 6, totalUserLow = 0, totalSys = 0, totalIdle = 0\<rparr>
        \<lparr>totalUser = 2, totalUserLow = 0, totalSys = 0, totalIdle = 8\<rparr> = 0
   \<and> fst (GetCpuUsage
         (snd (GetCpuUsage initial_cpu_state
            (Some \<lparr>totalUser = 6, totalUserLow = 0, totalSys = 0, totalIdle = 0\<rparr>)))
         (Some \<lparr>totalUser = 2, totalUserLow = 0, totalSys = 0, totalIdle = 8\<rparr>))
       = Fin 461168601842738790400"
  by code_simp

text \<open>
  C6, as the code has it. For two consecutive readings whose four counters do not
  decrease, with at least one tick elapsed in total and with 100 times the elapsed ticks
  below \<^verbatim>\<open>2^55\<close> (so that the conversions and the product are exact), the returned
  percentage lies in the closed interval from 0 to 100.
\<close>

theorem GetCpuUsage_in_range:
  assumes "totalUser r1 \<le> totalUser r2" "totalUserLow r1 \<le> totalUserLow r2"
    "totalSys r1 \<le> totalSys r2" "totalIdle r1 \<le> totalIdle r2"
    and "0 < elapsed_ticks r1 r2" "100 * elapsed_ticks r1 r2 < 2 ^ 55"
  shows "percent_in_range (fst (GetCpuUsage (snd (GetCpuUsage st (Some r1))) (Some r2)))"
proof (cases "totalUser r1 = 0")
  case True
  then show ?thesis by (simp add: GetCpuUsage_second percent_in_range_def)
next
  case False
  define du where "du = totalUser r2 - totalUser r1"
  define dn where "dn = totalUserLow r2 - totalUserLow r1"
  define ds where "ds = totalSys r2 - totalSys r1"
  define di where "di = totalIdle r2 - totalIdle r1"
  have u: "uint du = uint (totalUser r2) - uint (totalUser r1)"
    and n: "uint dn = uint (totalUserLow r2) - uint (totalUserLow r1)"
    and s: "uint ds = uint (totalSys r2) - uint (totalSys r1)"
    and i: "uint di = uint (totalIdle r2) - uint (totalIdle r1)"
    unfolding du_def dn_def ds_def di_def using assms(1-4) by (simp_all add: uint_diff)
  have D: "elapsed_ticks r1 r2 = uint du + uint dn + uint ds + uint di"
    by (simp add: elapsed_ticks_def u n s i)
  have nonneg: "0 \<le> uint du" "0 \<le> uint dn" "0 \<le> uint ds" "0 \<le> uint di"
    by simp_all
  from assms(6) have "100 * (uint du + uint dn + uint ds + uint di) < 36028797018963968"
    unfolding D by simp
  with nonneg have small: "uint du + uint dn + uint ds + uint di < 9007199254740992"
    by arith
  with nonneg have "uint du + uint dn < 18446744073709551616"
    "uint du + uint dn + uint ds < 18446744073709551616"
    "uint du + uint dn + uint ds + uint di < 18446744073709551616"
    by arith+
  then have lt: "uint du + uint dn < 2 ^ 64" "uint du + uint dn + uint ds < 2 ^ 64"
    "uint du + uint dn + uint ds + uint di < 2 ^ 64"
    by simp_all
  have t2: "uint (du + dn) = uint du + uint dn"
    using lt(1) by (rule uint_sum)
  have t3: "uint (du + dn + ds) = uint du + uint dn + uint ds"
    using lt(2) uint_sum [of "du + dn" ds] by (simp only: t2)
  have t4: "uint (du + dn + ds + di) = uint du + uint dn + uint ds + uint di"
    using lt(3) uint_sum [of "du + dn + ds" di] by (simp only: t3)
  have "percent_in_range
          (ddiv (dmul (round_binary64 (of_int (uint (du + dn + ds)))) (Fin 100))
                (round_binary64 (of_int (uint (du + dn + ds + di)))))"
  proof (rule percent_exact_range)
    show "0 \<le> uint (du + dn + ds)" by simp
    show "uint (du + dn + ds) \<le> uint (du + dn + ds + di)"
      unfolding t3 t4 using nonneg by arith
    show "0 < uint (du + dn + ds + di)" using assms(5) unfolding t4 D .
    show "100 * uint (du + dn + ds + di) < 2 ^ 55" using assms(6) unfolding t4 D .
  qed
  then show ?thesis using False
    by (simp only: GetCpuUsage_second double_of_ull_def du_def dn_def ds_def di_def if_False)
qed

theorem GetCpuUsage_in_range_witness:
  "(1000 :: 64 word) \<le> 1040 \<and> (20 :: 64 word) \<le> 20 \<and> (300 :: 64 word) \<le> 310
   \<and> (5000 :: 64 word) \<le> 5050
   \<and> elapsed_ticks \<lparr>totalUser = 1000, totalUserLow = 20, totalSys = 300, totalIdle = 5000\<rparr>
        \<lparr>totalUser = 1040, totalUserLow = 20, totalSys = 310, totalIdle = 5050\<rparr> = 100
   \<and> percent_in_range (fst (GetCpuUsage
         (snd (GetCpuUsage initial_cpu_state
            (Some \<lparr>totalUser = 1000, totalUserLow = 20, totalSys = 300, totalIdle = 5000\<rparr>)))
         (Some \<lparr>totalUser = 1040, totalUserLow = 20, totalSys = 310, totalIdle = 5050\<rparr>)))"
  using GetCpuUsage_in_range
    [of "\<lparr>totalUser = 1000, totalUserLow = 20, totalSys = 300, totalIdle = 5000\<rparr>"
        "\<lparr>totalUser = 1040, totalUserLow = 20, totalSys = 310, totalIdle = 5050\<rparr>"
        initial_cpu_state]
  by (simp add: elapsed_ticks_def)

text \<open>
  C6 as stated fails in two ways. Equal readings are non-decreasing, and the result is
  not-a-number. And with 360287970189643 user ticks elapsed and nothing else, the product
  \<^verbatim>\<open>total * 100.0\<close> is rounded upwards, and the quotient is the double next above 100.
\<close>

theorem GetCpuUsage_range_counterexample:
  "fst (GetCpuUsage
         (snd (GetCpuUsage initial_cpu_state
            (Some \<lparr>totalUser = 3, totalUserLow = 1, totalSys = 4, totalIdle = 1\<rparr>)))
         (Some \<lparr>totalUser = 3, totalUserLow = 1, totalSys = 4, totalIdle = 1\<rparr>)) = NaN
   \<and> \<not> percent_in_range NaN
   \<and> fst (GetCpuUsage
         (snd (GetCpuUsage initial_cpu_state
            (Some \<lparr>totalUser = 1, totalUserLow = 0, totalSys = 0, totalIdle = 0\<rparr>)))
         (Some \<lparr>totalUser = 360287970189644, totalUserLow = 0, totalSys = 0,
                 totalIdle = 0\<rparr>))
       = Fin (7036874417766401 / 70368744177664)
   \<and> \<not> percent_in_range (Fin (7036874417766401 / 70368744177664))"
  by code_simp

section \<open>Properties of GetNetworkStats\<close>

lemma net_out_reset:
  "out\<lparr>bytesReceived := 0, bytesSent := 0\<rparr> = \<lparr>bytesReceived = 0, bytesSent = 0\<rparr>"
  for out :: net_out
  by (cases out) simp

text \<open>
  What the loop adds up: the numbers of the lines on which \<^verbatim>\<open>sscanf\<close> assigns all three
  variables and whose scanned name differs from \<^verbatim>\<open>"lo"\<close>.
\<close>

lemma net_loop_sum:
  "net_loop ls out =
     out\<lparr>bytesReceived := bytesReceived out
          + sum_list (map (\<lambda>l. rx_bytes (sscanf_dev l))
              (filter (\<lambda>l. sscanf_result (sscanf_dev l) = 3
                           \<and> interface (sscanf_dev l) \<noteq> ''lo'') ls)),
         bytesSent := bytesSent out
          + sum_list (map (\<lambda>l. tx_bytes (sscanf_dev l))
              (filter (\<lambda>l. sscanf_result (sscanf_dev l) = 3
                           \<and> interface (sscanf_dev l) \<noteq> ''lo'') ls))\<rparr>"
  by (induction ls arbitrary: out) (simp_all add: Let_def add.assoc)

text \<open>
  C3, as the code has it. \<^verbatim>\<open>GetNetworkStats\<close> keeps no baseline: a call that opens the
  file, whatever call came before it and whatever that call left in the output cells,
  sets both outputs to 0 and adds up the counters of the current read. Every call, the
  first one too, returns the cumulative totals and not a difference.
\<close>

theorem GetNetworkStats_no_baseline:
  "GetNetworkStats (Some lines) (snd (GetNetworkStats prev out)) =
     (1, net_loop (drop 2 lines) \<lparr>bytesReceived = 0, bytesSent = 0\<rparr>)"
  by (simp add: GetNetworkStats_def net_out_reset)

theorem GetNetworkStats_no_baseline_witness:
  "GetNetworkStats
     (Some [''Inter-|   Receive                                                |  Transmit'',
            '' face |bytes    packets errs drop fifo frame compressed multicast|bytes    packets errs drop fifo colls carrier compressed'',
            ''  eth0:     300       2    0    0    0     0          0         0       80       1    0    0    0     0       0          0''])
     (snd (GetNetworkStats
        (Some [''Inter-|   Receive                                                |  Transmit'',
            '' face |bytes    packets errs drop fifo frame compressed multicast|bytes    packets errs drop fifo colls carrier compressed'',
            ''  eth0:     100       2    0    0    0     0          0         0       50       1    0    0    0     0       0          0''])
        \<lparr>bytesReceived = 0, bytesSent = 0\<rparr>))
   = (1, \<lparr>bytesReceived = 300, bytesSent = 80\<rparr>)"
proof -
  have "net_loop (drop 2
      [''Inter-|   Receive                                                |  Transmit'',
            '' face |bytes    packets errs drop fifo frame compressed multicast|bytes    packets errs drop fifo colls carrier compressed'',
            ''  eth0:     300       2    0    0    0     0          0         0       80       1    0    0    0     0       0          0''])
      \<lparr>bytesReceived = 0, bytesSent = 0\<rparr> = \<lparr>bytesReceived = 300, bytesSent = 80\<rparr>"
    by code_simp
  with GetNetworkStats_no_baseline
    [of "[''Inter-|   Receive                                                |  Transmit'',
            '' face |bytes    packets errs drop fifo frame compressed multicast|bytes    packets errs drop fifo colls carrier compressed'',
            ''  eth0:     300       2    0    0    0     0          0         0       80       1    0    0    0     0       0          0'']"
        "Some [''Inter-|   Receive                                                |  Transmit'',
            '' face |bytes    packets errs drop fifo frame compressed multicast|bytes    packets errs drop fifo colls carrier compressed'',
            ''  eth0:     100       2    0    0    0     0          0         0       50       1    0    0    0     0       0          0'']"
        "\<lparr>bytesReceived = 0, bytesSent = 0\<rparr>"]
  show ?thesis by simp
qed

text \<open>
  C3 as stated fails: the first call on a file with 100 bytes received and 50 sent on
  \<^verbatim>\<open>eth0\<close> returns 100 and 50, not zero; the next call, when the counters stand at 300
  and 80, returns 300 and 80, not the differences 200 and 30.
\<close>

theorem GetNetworkStats_delta_counterexample:
  "GetNetworkStats
     (Some [''Inter-|   Receive                                                |  Transmit'',
            '' face |bytes    packets errs drop fifo frame compressed multicast|bytes    packets errs drop fifo colls carrier compressed'',
            ''  eth0:     100       2    0    0    0     0          0         0       50       1    0    0    0     0       0          0''])
     \<lparr>bytesReceived = 0, bytesSent = 0\<rparr>
   = (1, \<lparr>bytesReceived = 100, bytesSent = 50\<rparr>)
   \<and> GetNetworkStats
     (Some [''Inter-|   Receive                                                |  Transmit'',
            '' face |bytes    packets errs drop fifo frame compressed multicast|bytes    packets errs drop fifo colls carrier compressed'',
            ''  eth0:     300       2    0    0    0     0          0         0       80       1    0    0    0     0       0          0''])
     \<lparr>bytesReceived = 100, bytesSent = 50\<rparr>
   = (1, \<lparr>bytesReceived = 300, bytesSent = 80\<rparr>)"
  by code_simp

text \<open>
  C4. The source means to leave the loopback interface out (\<^verbatim>\<open>// Skip loopback\<close>), but
  compares the scanned name, leading blanks included, with \<^verbatim>\<open>"lo"\<close>. The kernel writes
  the names of \<^verbatim>\<open>/proc/net/dev\<close> right-aligned in six columns, so the line of \<^verbatim>\<open>lo\<close>
  starts with four blanks and its counters are added: with \<^verbatim>\<open>lo\<close> at 999 and 999 and
  \<^verbatim>\<open>eth0\<close> at 100 and 50, the totals are 1099 and 1049. The same line without the
  blanks is left out.
\<close>

theorem GetNetworkStats_padded_lo_counted:
  "sscanf_dev ''    lo:     999       9    0    0    0     0          0         0      999       9    0    0    0     0       0          0''
   = \<lparr>sscanf_result = 3, interface = ''    lo'', rx_bytes = 999, tx_bytes = 999\<rparr>
   \<and> GetNetworkStats
     (Some [''Inter-|   Receive                                                |  Transmit'',
            '' face |bytes    packets errs drop fifo frame compressed multicast|bytes    packets errs drop fifo colls carrier compressed'',
            ''    lo:     999       9    0    0    0     0          0         0      999       9    0    0    0     0       0          0'',
            ''  eth0:     100       2    0    0    0     0          0         0       50       1    0    0    0     0       0          0''])
     \<lparr>bytesReceived = 0, bytesSent = 0\<rparr>
   = (1, \<lparr>bytesReceived = 1099, bytesSent = 1049\<rparr>)
   \<and> GetNetworkStats
     (Some [''Inter-|   Receive                                                |  Transmit'',
            '' face |bytes    packets errs drop fifo frame compressed multicast|bytes    packets errs drop fifo colls carrier compressed'',
            ''lo: 999 9 0 0 0 0 0 0 999 9 0 0 0 0 0 0'',
            ''  eth0:     100       2    0    0    0     0          0         0       50       1    0    0    0     0       0          0''])
     \<lparr>bytesReceived = 0, bytesSent = 0\<rparr>
   = (1, \<lparr>bytesReceived = 100, bytesSent = 50\<rparr>)"
  by code_simp

section \<open>Properties of GetDiskUsage\<close>

text \<open>
  C7. When \<^verbatim>\<open>statvfs\<close> fails for the path (it returns a value other than 0),
  \<^verbatim>\<open>GetDiskUsage\<close> returns 0 and both output cells keep the content they had before the
  call.
\<close>

theorem GetDiskUsage_failure:
  "fst (statvfs path) \<noteq> 0 \<Longrightarrow> GetDiskUsage statvfs path out = (0, out)"
  by (cases "statvfs path") (simp add: GetDiskUsage_def)

theorem GetDiskUsage_failure_witness:
  "fst ((\<lambda>p. if p = ''/'' then (0, \<lparr>f_blocks = 1000, f_frsize = 4096, f_bavail = 250\<rparr>)
             else (- 1, \<lparr>f_blocks = 0, f_frsize = 0, f_bavail = 0\<rparr>)) ''/nonexistent/path'')
     \<noteq> (0 :: int)
   \<and> GetDiskUsage
        (\<lambda>p. if p = ''/'' then (0, \<lparr>f_blocks = 1000, f_frsize = 4096, f_bavail = 250\<rparr>)
             else (- 1, \<lparr>f_blocks = 0, f_frsize = 0, f_bavail = 0\<rparr>))
        ''/nonexistent/path'' \<lparr>totalSpace = 11, freeSpace = 22\<rparr>
      = (0, \<lparr>totalSpace = 11, freeSpace = 22\<rparr>)"
  using GetDiskUsage_failure
    [of "\<lambda>p. if p = ''/'' then (0, \<lparr>f_blocks = 1000, f_frsize = 4096, f_bavail = 250\<rparr>)
             else (- 1, \<lparr>f_blocks = 0, f_frsize = 0, f_bavail = 0\<rparr>)"
        "''/nonexistent/path''" "\<lparr>totalSpace = 11, freeSpace = 22\<rparr>"]
  by simp

section \<open>Properties of GetTopProcesses\<close>

lemma top_loop_done:
  "\<not> count < maxCount \<Longrightarrow> top_loop entries maxCount (count, out) = (count, out)"
  by (cases entries) simp_all

lemma top_loop_bounds:
  assumes "0 \<le> count" "count \<le> maxCount"
  shows "fst (top_loop entries maxCount (count, out)) \<le> maxCount
    \<and> drop (nat maxCount) (processIds (snd (top_loop entries maxCount (count, out))))
        = drop (nat maxCount) (processIds out)
    \<and> drop (nat maxCount) (processNames (snd (top_loop entries maxCount (count, out))))
        = drop (nat maxCount) (processNames out)
    \<and> drop (nat maxCount) (memoryUsages (snd (top_loop entries maxCount (count, out))))
        = drop (nat maxCount) (memoryUsages out)"
  using assms
proof (induction entries arbitrary: count out)
  case Nil
  then show ?case by simp
next
  case (Cons entry rest)
  show ?case
  proof (cases "count < maxCount")
    case False
    with Cons.prems show ?thesis by (simp add: top_loop_done)
  next
    case True
    show ?thesis
    proof (cases "d_type entry = DT_DIR
        \<and> strspn (d_name entry) ''0123456789'' = length (d_name entry)")
      case False
      with True Cons.IH [OF Cons.prems, of out] show ?thesis by auto
    next
      case dir: True
      define out1 where "out1 =
        out\<lparr>processIds := (processIds out)[nat count := atoi (d_name entry)],
            processNames := (processNames out)[nat count := d_name entry],
            memoryUsages := (memoryUsages out)[nat count := 0]\<rparr>"
      from True Cons.prems have c: "0 \<le> count + 1" "count + 1 \<le> maxCount" by simp_all
      from True Cons.prems have lt: "nat count < nat maxCount" by simp
      have step: "top_loop (entry # rest) maxCount (count, out)
          = top_loop rest maxCount (count + 1, out1)"
        using True dir by (simp add: out1_def)
      have "drop (nat maxCount) (processIds out1) = drop (nat maxCount) (processIds out)"
        "drop (nat maxCount) (processNames out1) = drop (nat maxCount) (processNames out)"
        "drop (nat maxCount) (memoryUsages out1) = drop (nat maxCount) (memoryUsages out)"
        using lt by (simp_all add: out1_def drop_update_cancel)
      with Cons.IH [OF c, of out1] show ?thesis by (simp only: step)
    qed
  qed
qed

text \<open>
  C8. For \<^verbatim>\<open>maxCount\<close> from 0 upwards, the counter of records written ends at
  \<^verbatim>\<open>maxCount\<close> or below, and the elements of the three arrays from index \<^verbatim>\<open>maxCount\<close>
  on are not touched, whether \<^verbatim>\<open>/proc\<close> can be opened or not. With \<^verbatim>\<open>maxCount = 0\<close> the
  counter stays at 0 and the arrays are left as they were.
\<close>

theorem GetTopProcesses_at_most_maxCount:
  assumes "0 \<le> maxCount"
  shows "fst (top_loop entries maxCount (0, out)) \<le> maxCount
    \<and> drop (nat maxCount) (processIds (GetTopProcesses proc maxCount out))
        = drop (nat maxCount) (processIds out)
    \<and> drop (nat maxCount) (processNames (GetTopProcesses proc maxCount out))
        = drop (nat maxCount) (processNames out)
    \<and> drop (nat maxCount) (memoryUsages (GetTopProcesses proc maxCount out))
        = drop (nat maxCount) (memoryUsages out)
    \<and> fst (top_loop entries 0 (0, out)) = 0
    \<and> GetTopProcesses proc 0 out = out"
proof -
  have z: "(0::int) \<le> 0" by simp
  have "GetTopProcesses proc 0 out = out"
    by (cases proc) (simp_all add: GetTopProcesses_def top_loop_done)
  moreover have "fst (top_loop entries 0 (0, out)) = 0"
    by (simp add: top_loop_done)
  moreover have "drop (nat maxCount) (processIds (GetTopProcesses proc maxCount out))
        = drop (nat maxCount) (processIds out)
    \<and> drop (nat maxCount) (processNames (GetTopProcesses proc maxCount out))
        = drop (nat maxCount) (processNames out)
    \<and> drop (nat maxCount) (memoryUsages (GetTopProcesses proc maxCount out))
        = drop (nat maxCount) (memoryUsages out)"
  proof (cases proc)
    case None
    then show ?thesis by (simp add: GetTopProcesses_def)
  next
    case (Some es)
    with top_loop_bounds [OF z assms, of es out] show ?thesis
      by (simp add: GetTopProcesses_def)
  qed
  ultimately show ?thesis using top_loop_bounds [OF z assms, of entries out] by simp
qed

theorem GetTopProcesses_at_most_maxCount_witness:
  "(0 :: int) \<le> 2
   \<and> top_loop
        [\<lparr>d_type = 4, d_name = ''1''\<rparr>, \<lparr>d_type = 4, d_name = ''self''\<rparr>,
         \<lparr>d_type = 8, d_name = ''7''\<rparr>, \<lparr>d_type = 4, d_name = ''42''\<rparr>,
         \<lparr>d_type = 4, d_name = ''300''\<rparr>] 2
        (0, \<lparr>processIds = [- 1, - 1, - 1], processNames = [''a'', ''b'', ''c''],
             memoryUsages = [9, 9, 9]\<rparr>)
      = (2, \<lparr>processIds = [1, 42, - 1], processNames = [''1'', ''42'', ''c''],
             memoryUsages = [0, 0, 9]\<rparr>)
   \<and> GetTopProcesses
        (Some [\<lparr>d_type = 4, d_name = ''1''\<rparr>, \<lparr>d_type = 4, d_name = ''self''\<rparr>,
         \<lparr>d_type = 8, d_name = ''7''\<rparr>, \<lparr>d_type = 4, d_name = ''42''\<rparr>,
         \<lparr>d_type = 4, d_name = ''300''\<rparr>]) 0
        \<lparr>processIds = [- 1, - 1, - 1], processNames = [''a'', ''b'', ''c''],
             memoryUsages = [9, 9, 9]\<rparr>
      = \<lparr>processIds = [- 1, - 1, - 1], processNames = [''a'', ''b'', ''c''],
             memoryUsages = [9, 9, 9]\<rparr>"
  using GetTopProcesses_at_most_maxCount
    [of 2 "[\<lparr>d_type = 4, d_name = ''1''\<rparr>, \<lparr>d_type = 4, d_name = ''self''\<rparr>,
         \<lparr>d_type = 8, d_name = ''7''\<rparr>, \<lparr>d_type = 4, d_name = ''42''\<rparr>,
         \<lparr>d_type = 4, d_name = ''300''\<rparr>]"
        "\<lparr>processIds = [- 1, - 1, - 1], processNames = [''a'', ''b'', ''c''],
             memoryUsages = [9, 9, 9]\<rparr>"
        "Some [\<lparr>d_type = 4, d_name = ''1''\<rparr>, \<lparr>d_type = 4, d_name = ''self''\<rparr>,
         \<lparr>d_type = 8, d_name = ''7''\<rparr>, \<lparr>d_type = 4, d_name = ''42''\<rparr>,
         \<lparr>d_type = 4, d_name = ''300''\<rparr>]"]
  by (simp add: DT_DIR_def strspn_def atoi_def decimal_def)

section \<open>Properties of CheckPortStatus\<close>

text \<open>
  C9. \<^verbatim>\<open>CheckPortStatus\<close> returns 0 or 1 for every host and port and every behaviour of
  the two system calls: 0 when \<^verbatim>\<open>socket\<close> fails, 0 when \<^verbatim>\<open>connect\<close> fails (refused or
  unreachable), and 1 when both succeed. No path of the function raises an error.
\<close>

theorem CheckPortStatus_boolean:
  "CheckPortStatus sock connect host port \<in> {0, 1}
   \<and> (sock < 0 \<longrightarrow> CheckPortStatus sock connect host port = 0)
   \<and> (connect sock host port \<noteq> 0 \<longrightarrow> CheckPortStatus sock connect host port = 0)
   \<and> (0 \<le> sock \<and> connect sock host port = 0 \<longrightarrow> CheckPortStatus sock connect host port = 1)"
  by (simp add: CheckPortStatus_def Let_def)

theorem CheckPortStatus_boolean_witness:
  "(- 1 :: int) < 0
   \<and> CheckPortStatus (- 1) (\<lambda>s h p. if p = 80 then 0 else - 1) ''127.0.0.1'' 80 = 0
   \<and> (\<lambda>s h p. if p = 80 then 0 else - 1 :: int) (3 :: int) ''127.0.0.1'' (81 :: int) \<noteq> 0
   \<and> CheckPortStatus 3 (\<lambda>s h p. if p = 80 then 0 else - 1) ''127.0.0.1'' 81 = 0
   \<and> CheckPortStatus 3 (\<lambda>s h p. if p = 80 then 0 else - 1) ''127.0.0.1'' 80 = 1"
  using CheckPortStatus_boolean [of "- 1" "\<lambda>s h p. if p = 80 then 0 else - 1" "''127.0.0.1''" 80]
    CheckPortStatus_boolean [of 3 "\<lambda>s h p. if p = 80 then 0 else - 1" "''127.0.0.1''" 81]
    CheckPortStatus_boolean [of 3 "\<lambda>s h p. if p = 80 then 0 else - 1" "''127.0.0.1''" 80]
  by simp

end
